theory Spec2Isabelle
  imports Complex_Main
begin

section \<open>Python values used by the text-generation script\<close>

text \<open>
  A Python \<open>str\<close> is a sequence of code points; the script only compares, sorts and
  looks characters up, so the character type is any linear order (\<open>sorted\<close> uses its
  order).  Python integers are \<open>int\<close>.  A raised exception is the left summand of
  the result.
\<close>

datatype py_error =
    KeyError | IndexError | NameError | AttributeError | InvalidArgumentError
  | OSError

text \<open>\<open>d[k]\<close> on a dictionary: a missing key raises \<open>KeyError\<close>.\<close>

definition dict_getitem :: "('k \<rightharpoonup> 'v) \<Rightarrow> 'k \<Rightarrow> py_error + 'v" where
  "dict_getitem d k = (case d k of None \<Rightarrow> Inl KeyError | Some v \<Rightarrow> Inr v)"

text \<open>\<open>a[i]\<close> on a list or a one-dimensional array: a negative index counts from the
  end, an index out of range raises \<open>IndexError\<close>.\<close>

definition getitem :: "'a list \<Rightarrow> int \<Rightarrow> py_error + 'a" where
  "getitem xs i =
     (if 0 \<le> i \<and> i < int (length xs) then Inr (xs ! nat i)
      else if i < 0 \<and> - int (length xs) \<le> i then Inr (xs ! nat (int (length xs) + i))
      else Inl IndexError)"

text \<open>\<open>t[i]\<close> on a tensor of the framework, along its first dimension: a negative index
  counts from the end, an index out of bounds raises the framework's
  \<open>InvalidArgumentError\<close>.\<close>

definition tensor_getitem :: "'a list \<Rightarrow> int \<Rightarrow> py_error + 'a" where
  "tensor_getitem xs i =
     (if 0 \<le> i \<and> i < int (length xs) then Inr (xs ! nat i)
      else if i < 0 \<and> - int (length xs) \<le> i then Inr (xs ! nat (int (length xs) + i))
      else Inl InvalidArgumentError)"

text \<open>\<open>enumerate(xs)\<close>: the pairs \<open>(0, xs[0]), (1, xs[1]), ...\<close>.\<close>

definition py_enumerate :: "'a list \<Rightarrow> (int \<times> 'a) list" where
  "py_enumerate xs = zip (map int [0..<length xs]) xs"

text \<open>The slices \<open>xs[:-1]\<close> and \<open>xs[1:]\<close>.\<close>

definition slice_to_minus1 :: "'a list \<Rightarrow> 'a list" where
  "slice_to_minus1 xs = take (length xs - 1) xs"

definition slice_from_1 :: "'a list \<Rightarrow> 'a list" where
  "slice_from_1 xs = drop 1 xs"

section \<open>Vocabulary and vectorisation (text\_generation.py, lines 42--56)\<close>

text \<open>\<open>vocab = sorted(set(text))\<close>\<close>

definition vocab :: "'a::linorder list \<Rightarrow> 'a list" where
  "vocab text = sorted_list_of_set (set text)"

text \<open>\<open>vocab_size = len(vocab)\<close>\<close>

definition vocab_size :: "'a::linorder list \<Rightarrow> int" where
  "vocab_size text = int (length (vocab text))"

text \<open>\<open>char2idx = {u: i for i, u in enumerate(vocab)}\<close>: the comprehension stores the
  pairs in order, a later pair replacing an earlier one with the same key.\<close>

definition char2idx :: "'a::linorder list \<Rightarrow> ('a \<rightharpoonup> int)" where
  "char2idx text = fold (\<lambda>(i, u) d. d(u \<mapsto> i)) (py_enumerate (vocab text)) Map.empty"

text \<open>
  \<open>idx2char = np.array(vocab)\<close>.  The characters are code points here.  The array has
  the fixed-width type of strings of one code point, and an item read from such an array
  is a string without its trailing \<open>U+0000\<close> code points: the item stored for the
  character \<open>U+0000\<close> reads as the empty string, every other item as the string of its
  one character.
\<close>

definition np_item :: "nat \<Rightarrow> nat list" where
  "np_item c = (if c = 0 then [] else [c])"

definition idx2char :: "nat list \<Rightarrow> nat list list" where
  "idx2char text = map np_item (vocab text)"


text \<open>\<open>[d[c] for c in cs]\<close>: the first failing lookup ends the comprehension.\<close>

fun lookup_each :: "('a \<rightharpoonup> int) \<Rightarrow> 'a list \<Rightarrow> py_error + int list" where
  "lookup_each d [] = Inr []"
| "lookup_each d (c # cs) =
     (case dict_getitem d c of
        Inl e \<Rightarrow> Inl e
      | Inr i \<Rightarrow> (case lookup_each d cs of Inl e \<Rightarrow> Inl e | Inr js \<Rightarrow> Inr (i # js)))"

text \<open>\<open>text_as_int = np.array([char2idx[c] for c in text])\<close>\<close>

definition text_as_int :: "'a::linorder list \<Rightarrow> py_error + int list" where
  "text_as_int text = lookup_each (char2idx text) text"

section \<open>Training examples (lines 88--115)\<close>

definition seq_length :: nat where
  "seq_length = 100"

text \<open>\<open>Dataset.batch(n, drop_remainder)\<close> of the framework, on a finite stream: consecutive
  groups of \<open>n\<close> elements; a shorter last group is kept unless \<open>drop_remainder\<close>; a
  batch size of zero is rejected.  The fuel argument is the number of elements left,
  which bounds the number of groups when \<open>n\<close> is positive.\<close>

fun batch_fuel :: "nat \<Rightarrow> nat \<Rightarrow> bool \<Rightarrow> 'a list \<Rightarrow> 'a list list" where
  "batch_fuel 0 n drop_remainder xs = []"
| "batch_fuel (Suc k) n drop_remainder xs =
     (if xs = [] then []
      else if n \<le> length xs then take n xs # batch_fuel k n drop_remainder (drop n xs)
      else if drop_remainder then [] else [xs])"

definition batch :: "nat \<Rightarrow> bool \<Rightarrow> 'a list \<Rightarrow> py_error + 'a list list" where
  "batch n drop_remainder xs =
     (if n = 0 then Inl InvalidArgumentError
      else Inr (batch_fuel (length xs) n drop_remainder xs))"

text \<open>\<open>Dataset.map(f)\<close> of the framework, on a finite stream.\<close>

definition dataset_map :: "('a \<Rightarrow> 'b) \<Rightarrow> py_error + 'a list \<Rightarrow> py_error + 'b list" where
  "dataset_map f ds = (case ds of Inl e \<Rightarrow> Inl e | Inr xs \<Rightarrow> Inr (map f xs))"

text \<open>\<open>sequences = char_dataset.batch(seq_length + 1, drop_remainder=True)\<close>, where
  \<open>char_dataset\<close> is the stream of the elements of \<open>text_as_int\<close>.\<close>

definition sequences :: "int list \<Rightarrow> py_error + int list list" where
  "sequences ids = batch (seq_length + 1) True ids"

text \<open>
  \<^verbatim>\<open>
  def split_input_target(chunk):
    input_text = chunk[:-1]
    target_text = chunk[1:]
    return input_text, target_text
  \<close>
\<close>

definition split_input_target :: "'a list \<Rightarrow> 'a list \<times> 'a list" where
  "split_input_target chunk =
     (let input_text = slice_to_minus1 chunk;
          target_text = slice_from_1 chunk
      in (input_text, target_text))"

text \<open>\<open>dataset = sequences.map(split_input_target)\<close>\<close>

definition dataset :: "int list \<Rightarrow> py_error + (int list \<times> int list) list" where
  "dataset ids = dataset_map split_input_target (sequences ids)"

section \<open>The prediction loop (lines 310--345)\<close>

text \<open>
  \<open>generate_text\<close> receives the model, an object of the framework.  What the loop uses of
  the framework is collected in a record: the forward pass \<open>model(input_eval)\<close> with the
  batch dimension removed, which raises or returns the logits (a row per input position)
  and, the layer being stateful, a changed model; \<open>model.reset_states()\<close>; and one draw
  of \<open>tf.random.categorical\<close> from a row of logits, which advances the random generator.
  Logits are real numbers here; the only arithmetic the loop does on them is the division
  by the temperature \<open>1.0\<close>.
\<close>

record ('m, 'g) framework =
  forward :: "'m \<Rightarrow> int list \<Rightarrow> py_error + (real list list \<times> 'm)"
  reset_states :: "'m \<Rightarrow> 'm"
  draw :: "'g \<Rightarrow> real list \<Rightarrow> int \<times> 'g"

text \<open>\<open>tf.random.categorical(logits, num_samples=1)\<close>: for every row of \<open>logits\<close> one row
  holding one sampled class index.\<close>

fun categorical :: "('g \<Rightarrow> real list \<Rightarrow> int \<times> 'g) \<Rightarrow> 'g \<Rightarrow> real list list \<Rightarrow> int list list \<times> 'g" where
  "categorical d g [] = ([], g)"
| "categorical d g (row # rows) =
     (let (i, g1) = d g row; (rest, g2) = categorical d g1 rows in ([i] # rest, g2))"

text \<open>
  The body of \<open>for i in range(num_generate)\<close>, on the model, the generator,
  \<open>input_eval\<close> and \<open>text_generated\<close>:
  \<^verbatim>\<open>
    predictions = model(input_eval)
    predictions = tf.squeeze(predictions, 0)
    predictions = predictions / temperature
    predicted_id = tf.random.categorical(predictions, num_samples=1)[-1, 0].numpy()
    input_eval = tf.expand_dims([predicted_id], 0)
    text_generated.append(idx2char[predicted_id])
  \<close>
\<close>

definition generate_body ::
  "('m, 'g) framework \<Rightarrow> nat list list \<Rightarrow> real \<Rightarrow> 'm \<times> 'g \<times> int list \<times> nat list list
     \<Rightarrow> py_error + ('m \<times> 'g \<times> int list \<times> nat list list)" where
  "generate_body fw i2c temperature st =
     (case st of (m, g, input_eval, text_generated) \<Rightarrow>
        (case forward fw m input_eval of
           Inl e \<Rightarrow> Inl e
         | Inr (predictions, m1) \<Rightarrow>
             (let predictions = map (map (\<lambda>x. x / temperature)) predictions;
                  (samples, g1) = categorical (draw fw) g predictions
              in case tensor_getitem samples (- 1) of
                   Inl e \<Rightarrow> Inl e
                 | Inr last_row \<Rightarrow>
                     (case tensor_getitem last_row 0 of
                        Inl e \<Rightarrow> Inl e
                      | Inr predicted_id \<Rightarrow>
                          (case getitem i2c predicted_id of
                             Inl e \<Rightarrow> Inl e
                           | Inr ch \<Rightarrow>
                               Inr (m1, g1, [predicted_id], text_generated @ [ch]))))))"

text \<open>The loop: the body once per unit of the counter, ended by the first exception.\<close>

fun generate_loop ::
  "('m, 'g) framework \<Rightarrow> nat list list \<Rightarrow> real \<Rightarrow> nat \<Rightarrow> 'm \<times> 'g \<times> int list \<times> nat list list
     \<Rightarrow> py_error + ('m \<times> 'g \<times> int list \<times> nat list list)" where
  "generate_loop fw i2c temperature 0 st = Inr st"
| "generate_loop fw i2c temperature (Suc n) st =
     (case generate_body fw i2c temperature st of
        Inl e \<Rightarrow> Inl e
      | Inr st1 \<Rightarrow> generate_loop fw i2c temperature n st1)"

text \<open>\<open>generate_text(model, start_string)\<close>; the result is the returned string with the
  model and the generator as the call leaves them.\<close>

definition generate_text ::
  "('m, 'g) framework \<Rightarrow> nat list \<Rightarrow> 'm \<Rightarrow> 'g \<Rightarrow> nat list
     \<Rightarrow> py_error + (nat list \<times> 'm \<times> 'g)" where
  "generate_text fw text m g start_string =
     (let num_generate = 1000 in
      case lookup_each (char2idx text) start_string of
        Inl e \<Rightarrow> Inl e
      | Inr input_eval \<Rightarrow>
          (let text_generated = [];
               temperature = 1.0;
               m0 = reset_states fw m
           in case generate_loop fw (idx2char text) temperature num_generate
                     (m0, g, input_eval, text_generated) of
                Inl e \<Rightarrow> Inl e
              | Inr (m1, g1, input_eval, text_generated) \<Rightarrow>
                  Inr (start_string @ concat text_generated, m1, g1)))"

text \<open>
  What the loop relies on from the framework, for a vocabulary of \<open>V\<close> characters: the
  model, built with \<open>Embedding(vocab_size, ...)\<close>, \<open>return_sequences=True\<close> and
  \<open>Dense(vocab_size)\<close>, maps a non-empty sequence of \<open>T\<close> indices below \<open>V\<close> to \<open>T\<close> rows
  of \<open>V\<close> logits; on the empty sequence it raises or gives no row; and a draw from a
  non-empty row is a class index of that row.
\<close>

definition framework_ok :: "('m, 'g) framework \<Rightarrow> nat \<Rightarrow> bool" where
  "framework_ok fw V \<longleftrightarrow>
     (\<forall>m xs. xs \<noteq> [] \<and> (\<forall>x \<in> set xs. 0 \<le> x \<and> x < int V) \<longrightarrow>
        (\<exists>rows m1. forward fw m xs = Inr (rows, m1) \<and> length rows = length xs \<and>
           (\<forall>row \<in> set rows. length row = V))) \<and>
     (\<forall>m rows m1. forward fw m [] = Inr (rows, m1) \<longrightarrow> rows = []) \<and>
     (\<forall>g row. row \<noteq> [] \<longrightarrow> 0 \<le> fst (draw fw g row) \<and> fst (draw fw g row) < int (length row))"

text \<open>
  The iteration the loop is meant to perform, written out on the indices alone: each of
  the \<open>n\<close> passes takes the logits of the forward pass on the current input, divides them
  by the temperature, draws one class index per row in order and keeps the draw from the
  last row, which is the input of the next pass.  It gives the indices drawn, with the
  model and the generator after the last pass.
\<close>

fun sampled :: "('m, 'g) framework \<Rightarrow> nat \<Rightarrow> 'm \<Rightarrow> 'g \<Rightarrow> int list \<Rightarrow> int list \<times> 'm \<times> 'g" where
  "sampled fw 0 m g inp = ([], m, g)"
| "sampled fw (Suc n) m g inp =
     (case forward fw m inp of
        Inl e \<Rightarrow> ([], m, g)
      | Inr (logits, m1) \<Rightarrow>
          (let scaled = map (map (\<lambda>x. x / 1.0)) logits;
               g0 = fold (\<lambda>row g. snd (draw fw g row)) (butlast scaled) g;
               (i, g1) = draw fw g0 (last scaled);
               (rest, m2, g2) = sampled fw n m1 g1 [i]
           in (i # rest, m2, g2)))"

text \<open>A framework instance to run the loop on: the model rejects the empty input, gives
  zero logits otherwise and counts its forward passes; every draw is the class \<open>0\<close>, and
  the generator counts the draws.\<close>

definition demo_framework :: "nat \<Rightarrow> (nat, nat) framework" where
  "demo_framework V =
     \<lparr>forward = (\<lambda>m xs. if xs = [] then Inl InvalidArgumentError
                         else Inr (map (\<lambda>_. replicate V 0) xs, Suc m)),
      reset_states = (\<lambda>m. 0),
      draw = (\<lambda>g row. (0, Suc g))\<rparr>"

text \<open>The same framework with a model that also records the input of every forward
  pass, to observe what the loop feeds to the model.\<close>

definition logging :: "('m, 'g) framework \<Rightarrow> ('m \<times> int list list, 'g) framework" where
  "logging fw =
     \<lparr>forward = (\<lambda>(m, seen) xs.
                   case forward fw m xs of
                     Inl e \<Rightarrow> Inl e
                   | Inr (p, m1) \<Rightarrow> Inr (p, (m1, seen @ [xs]))),
      reset_states = (\<lambda>(m, seen). (reset_states fw m, seen)),
      draw = draw fw\<rparr>"

section \<open>Checkpoints and the custom training loop (lines 252--259 and 398--421)\<close>

text \<open>\<open>str(n)\<close> for an integer: its decimal digits, with a sign when negative.\<close>

function str_nat :: "nat \<Rightarrow> string" where
  "str_nat n =
     (if n < 10 then [''0123456789'' ! n]
      else str_nat (n div 10) @ [''0123456789'' ! (n mod 10)])"
  by pat_completeness auto
termination
  by (relation "measure id") auto

declare str_nat.simps [simp del]

definition py_str :: "int \<Rightarrow> string" where
  "py_str i = (if i < 0 then ''-'' @ str_nat (nat (- i)) else str_nat (nat i))"

text \<open>\<open>os.path.join(a, b)\<close> on a POSIX system.\<close>

definition path_join :: "string \<Rightarrow> string \<Rightarrow> string" where
  "path_join a b =
     (if take 1 b = ''/'' then b
      else if a = [] \<or> last a = CHR ''/'' then a @ b
      else a @ ''/'' @ b)"

text \<open>\<open>template.format(epoch=epoch)\<close> for a template whose only braces are replacement
  fields \<open>{epoch}\<close>: each field is replaced by \<open>str(epoch)\<close>.\<close>

fun format_epoch :: "string \<Rightarrow> int \<Rightarrow> string" where
  "format_epoch [] epoch = []"
| "format_epoch (c # cs) epoch =
     (if take 7 (c # cs) = ''{epoch}'' then py_str epoch @ format_epoch (drop 6 cs) epoch
      else c # format_epoch cs epoch)"

definition checkpoint_dir :: string where
  "checkpoint_dir = ''./training_checkpoints''"

definition checkpoint_prefix :: string where
  "checkpoint_prefix = path_join checkpoint_dir ''ckpt_{epoch}''"


definition py_range :: "nat \<Rightarrow> int list" where
  "py_range n = map int [0..<n]"

text \<open>
  What a file written by the framework holds: the weights of the model
  (\<open>model.save_weights\<close>) or the whole model (\<open>model.save\<close>).
\<close>

datatype 'w file_content = WeightsOnly 'w | WholeModel 'w


text \<open>
  The state of training: the model's weights, the files written so far (every save adds
  the path with what is stored there, in order), and the loop variable \<open>epoch\<close> of the
  custom training loop, unbound before its first pass.
\<close>

record 'w training_state =
  model_weights :: 'w
  saved :: "(string \<times> 'w file_content) list"
  epoch_var :: "int option"

definition save_weights :: "string \<Rightarrow> 'w training_state \<Rightarrow> 'w training_state" where
  "save_weights path st = st\<lparr>saved := saved st @ [(path, WeightsOnly (model_weights st))]\<rparr>"







text \<open>
  \<^verbatim>\<open>
  for epoch in range(EPOCHS):
    hidden = model.reset_states()
    for (batch_n, (inp, target)) in enumerate(dataset):
      loss = train_step(inp, target)
      ...
    if (epoch + 1) % 5 == 0:
      model.save_weights(checkpoint_prefix.format(epoch=epoch))
  \<close>
  The passes over the batches of one epoch (\<open>reset_states\<close> and the calls of
  \<open>train_step\<close>), which change the model only, are the parameter \<open>train_epoch\<close>.
\<close>

fun training_loop :: "(int \<Rightarrow> 'w \<Rightarrow> 'w) \<Rightarrow> int list \<Rightarrow> 'w training_state \<Rightarrow> 'w training_state" where
  "training_loop train_epoch [] st = st"
| "training_loop train_epoch (epoch # rest) st =
     (let st1 = st\<lparr>epoch_var := Some epoch,
                    model_weights := train_epoch epoch (model_weights st)\<rparr>;
          st2 = (if (epoch + 1) mod 5 = 0
                 then save_weights (format_epoch checkpoint_prefix epoch) st1 else st1)
      in training_loop train_epoch rest st2)"

text \<open>The loop followed by the last line of the script,
  \<open>model.save_weights(checkpoint_prefix.format(epoch=epoch))\<close>.\<close>

definition custom_training ::
  "nat \<Rightarrow> (int \<Rightarrow> 'w \<Rightarrow> 'w) \<Rightarrow> 'w training_state \<Rightarrow> py_error + 'w training_state" where
  "custom_training epochs train_epoch st =
     (let st1 = training_loop train_epoch (py_range epochs) st
      in case epoch_var st1 of
           None \<Rightarrow> Inl NameError
         | Some epoch \<Rightarrow> Inr (save_weights (format_epoch checkpoint_prefix epoch) st1))"

section \<open>The custom layer (functional.py, lines 486--541)\<close>

text \<open>Tensors of rank two and one, with their shapes; entries are real numbers.\<close>

record matrix =
  nrows :: nat
  ncols :: nat
  entry :: "nat \<Rightarrow> nat \<Rightarrow> real"

record vector =
  vlen :: nat
  elem :: "nat \<Rightarrow> real"

text \<open>\<open>tf.matmul(a, b)\<close> on matrices: the inner dimensions must agree.\<close>

definition matmul :: "matrix \<Rightarrow> matrix \<Rightarrow> py_error + matrix" where
  "matmul x y =
     (if ncols x = nrows y
      then Inr \<lparr>nrows = nrows x, ncols = ncols y,
                entry = (\<lambda>i j. sum_list (map (\<lambda>k. entry x i k * entry y k j) [0..<ncols x]))\<rparr>
      else Inl InvalidArgumentError)"

text \<open>\<open>a + v\<close> for a matrix and a vector, with broadcasting: the vector is added to every
  row; a dimension of size one is stretched.\<close>

definition add_broadcast :: "matrix \<Rightarrow> vector \<Rightarrow> py_error + matrix" where
  "add_broadcast x v =
     (if ncols x = vlen v
      then Inr \<lparr>nrows = nrows x, ncols = ncols x, entry = (\<lambda>i j. entry x i j + elem v j)\<rparr>
      else if vlen v = 1
      then Inr \<lparr>nrows = nrows x, ncols = ncols x, entry = (\<lambda>i j. entry x i j + elem v 0)\<rparr>
      else if ncols x = 1
      then Inr \<lparr>nrows = nrows x, ncols = vlen v, entry = (\<lambda>i j. entry x i 0 + elem v j)\<rparr>
      else Inl InvalidArgumentError)"

text \<open>The attributes of a \<open>CustomDense\<close> object; \<open>w\<close> and \<open>b\<close> exist once \<open>build\<close> has run.\<close>

record custom_dense =
  dense_units :: nat
  dense_w :: "matrix option"
  dense_b :: "vector option"

text \<open>\<open>__init__(self, units=32)\<close>\<close>

definition CustomDense :: "nat \<Rightarrow> custom_dense" where
  "CustomDense units = \<lparr>dense_units = units, dense_w = None, dense_b = None\<rparr>"

text \<open>\<open>build(self, input_shape)\<close>.  The initializer \<open>'random_normal'\<close> of \<open>add_weight\<close> is
  the parameter \<open>random_normal\<close>: from the generator and a shape it gives the value at
  every index of the new weight, and the next generator.\<close>

definition build ::
  "('g \<Rightarrow> nat list \<Rightarrow> (nat list \<Rightarrow> real) \<times> 'g) \<Rightarrow> custom_dense \<Rightarrow> nat list \<Rightarrow> 'g
     \<Rightarrow> py_error + (custom_dense \<times> 'g)" where
  "build random_normal self input_shape g =
     (case getitem input_shape (- 1) of
        Inl e \<Rightarrow> Inl e
      | Inr input_dim \<Rightarrow>
          (let (wv, g1) = random_normal g [input_dim, dense_units self];
               (bv, g2) = random_normal g1 [dense_units self]
           in Inr (self\<lparr>dense_w := Some \<lparr>nrows = input_dim, ncols = dense_units self,
                                          entry = (\<lambda>i j. wv [i, j])\<rparr>,
                        dense_b := Some \<lparr>vlen = dense_units self, elem = (\<lambda>j. bv [j])\<rparr>\<rparr>,
                   g2)))"

text \<open>\<open>call(self, inputs)\<close>: \<open>return tf.matmul(inputs, self.w) + self.b\<close>\<close>

definition call :: "custom_dense \<Rightarrow> matrix \<Rightarrow> py_error + matrix" where
  "call self inputs =
     (case dense_w self of
        None \<Rightarrow> Inl AttributeError
      | Some w \<Rightarrow>
          (case matmul inputs w of
             Inl e \<Rightarrow> Inl e
           | Inr xw \<Rightarrow>
               (case dense_b self of
                  None \<Rightarrow> Inl AttributeError
                | Some b \<Rightarrow> add_broadcast xw b)))"

text \<open>\<open>outputs = CustomDense(units)(inputs)\<close>: on the first call of a new layer the
  framework runs \<open>build\<close> with the shape of the input, then \<open>call\<close>.\<close>

definition first_call ::
  "('g \<Rightarrow> nat list \<Rightarrow> (nat list \<Rightarrow> real) \<times> 'g) \<Rightarrow> nat \<Rightarrow> matrix \<Rightarrow> 'g
     \<Rightarrow> py_error + (matrix \<times> custom_dense \<times> 'g)" where
  "first_call random_normal units inputs g =
     (case build random_normal (CustomDense units) [nrows inputs, ncols inputs] g of
        Inl e \<Rightarrow> Inl e
      | Inr (layer, g1) \<Rightarrow>
          (case call layer inputs of Inl e \<Rightarrow> Inl e | Inr y \<Rightarrow> Inr (y, layer, g1)))"

text \<open>\<open>get_config(self)\<close> of the second variant: \<open>return {'units': self.units}\<close>\<close>

definition get_config :: "custom_dense \<Rightarrow> (string \<rightharpoonup> nat)" where
  "get_config self = [''units'' \<mapsto> dense_units self]"

text \<open>The reference computation of a dense layer, entry by entry:
  \<open>y[i][j] = sum over k of x[i][k] * w[k][j], plus b[j]\<close>.\<close>

definition dense_reference :: "matrix \<Rightarrow> matrix \<Rightarrow> vector \<Rightarrow> nat \<Rightarrow> nat \<Rightarrow> real" where
  "dense_reference x w b i j = (\<Sum>k<ncols x. entry x i k * entry w k j) + elem b j"

section \<open>The script as a sequence of statements (text\_generation.py)\<close>

text \<open>
  The script has no branch and no loop around its framework calls: its top-level
  statements run once each, from the first line to the last.  A statement is recorded
  with its first line, the kind of call it makes, the global names it binds, the global
  names it reads when it runs, and, for a \<open>def\<close>, the global names the body of the
  function reads when the function is called.
\<close>

datatype step =
    Import | GetFile | ReadText | Vocab | Char2idx | Idx2char | Vectorize | Assign
  | FromTensorSlices | Batch | DefFunction | MapSplit | ShuffleBatch | BuildModel
  | ForwardPass | Summary | Sample | Loss | Compile | CheckpointCallback | Fit
  | LatestCheckpoint | LoadWeights | ModelBuild | GenerateText | Optimizer
  | TrainingLoop | SaveWeights | Print

datatype stmt =
  Stmt (line: nat) (act: step) (binds: "string list") (reads: "string list")
       (body_reads: "string list")

definition script :: "stmt list" where
  "script = [
      Stmt 18 Import [''tf''] [] [],
      Stmt 20 Import [''np''] [] [],
      Stmt 21 Import [''os''] [] [],
      Stmt 22 Import [''time''] [] [],
      Stmt 25 GetFile [''path_to_file''] [''tf''] [],
      Stmt 34 ReadText [''text''] [''path_to_file''] [],
      Stmt 36 Print [] [''text''] [],
      Stmt 39 Print [] [''text''] [],
      Stmt 42 Vocab [''vocab''] [''text''] [],
      Stmt 43 Print [] [''vocab''] [],
      Stmt 53 Char2idx [''char2idx''] [''vocab''] [],
      Stmt 54 Idx2char [''idx2char''] [''np'', ''vocab''] [],
      Stmt 56 Vectorize [''text_as_int''] [''np'', ''char2idx'', ''text''] [],
      Stmt 61 Print [] [] [],
      Stmt 62 Print [''char'', ''_''] [''char2idx''] [],
      Stmt 64 Print [] [] [],
      Stmt 67 Print [] [''text'', ''text_as_int''] [],
      Stmt 89 Assign [''seq_length''] [] [],
      Stmt 90 Assign [''examples_per_epoch''] [''text'', ''seq_length''] [],
      Stmt 93 FromTensorSlices [''char_dataset''] [''tf'', ''text_as_int''] [],
      Stmt 95 Print [''i''] [''char_dataset'', ''idx2char''] [],
      Stmt 100 Batch [''sequences''] [''char_dataset'', ''seq_length''] [],
      Stmt 102 Print [''item''] [''sequences'', ''idx2char''] [],
      Stmt 109 DefFunction [''split_input_target''] [] [],
      Stmt 115 MapSplit [''dataset''] [''sequences'', ''split_input_target''] [],
      Stmt 119 Print [''input_example'', ''target_example''] [''dataset'', ''idx2char''] [],
      Stmt 125 Print [''i'', ''input_idx'', ''target_idx''] [''input_example'', ''target_example'', ''idx2char''] [],
      Stmt 136 Assign [''BATCH_SIZE''] [] [],
      Stmt 142 Assign [''BUFFER_SIZE''] [] [],
      Stmt 144 ShuffleBatch [''dataset''] [''dataset'', ''BUFFER_SIZE'', ''BATCH_SIZE''] [],
      Stmt 157 Assign [''vocab_size''] [''vocab''] [],
      Stmt 160 Assign [''embedding_dim''] [] [],
      Stmt 163 Assign [''rnn_units''] [] [],
      Stmt 166 DefFunction [''build_model''] [] [''tf''],
      Stmt 179 BuildModel [''model''] [''build_model'', ''vocab'', ''embedding_dim'', ''rnn_units'', ''BATCH_SIZE''] [],
      Stmt 196 ForwardPass [''input_example_batch'', ''target_example_batch'', ''example_batch_predictions''] [''dataset'', ''model''] [],
      Stmt 202 Summary [] [''model''] [],
      Stmt 211 Sample [''sampled_indices''] [''tf'', ''example_batch_predictions''] [],
      Stmt 212 Sample [''sampled_indices''] [''tf'', ''sampled_indices''] [],
      Stmt 219 Print [] [''idx2char'', ''input_example_batch''] [],
      Stmt 220 Print [] [] [],
      Stmt 221 Print [] [''idx2char'', ''sampled_indices''] [],
      Stmt 235 DefFunction [''loss''] [] [''tf''],
      Stmt 239 Loss [''example_batch_loss''] [''loss'', ''target_example_batch'', ''example_batch_predictions''] [],
      Stmt 240 Print [] [''example_batch_predictions''] [],
      Stmt 241 Print [] [''example_batch_loss''] [],
      Stmt 245 Compile [] [''model'', ''loss''] [],
      Stmt 253 Assign [''checkpoint_dir''] [] [],
      Stmt 255 Assign [''checkpoint_prefix''] [''os'', ''checkpoint_dir''] [],
      Stmt 257 CheckpointCallback [''checkpoint_callback''] [''tf'', ''checkpoint_prefix''] [],
      Stmt 266 Assign [''EPOCHS''] [] [],
      Stmt 268 Fit [''history''] [''model'', ''dataset'', ''EPOCHS'', ''checkpoint_callback''] [],
      Stmt 281 LatestCheckpoint [] [''tf'', ''checkpoint_dir''] [],
      Stmt 283 BuildModel [''model''] [''build_model'', ''vocab_size'', ''embedding_dim'', ''rnn_units''] [],
      Stmt 285 LoadWeights [] [''model'', ''tf'', ''checkpoint_dir''] [],
      Stmt 287 ModelBuild [] [''model'', ''tf''] [],
      Stmt 289 Summary [] [''model''] [],
      Stmt 310 DefFunction [''generate_text''] [] [''char2idx'', ''tf'', ''idx2char''],
      Stmt 348 GenerateText [] [''generate_text'', ''model''] [],
      Stmt 375 BuildModel [''model''] [''build_model'', ''vocab'', ''embedding_dim'', ''rnn_units'', ''BATCH_SIZE''] [],
      Stmt 381 Optimizer [''optimizer''] [''tf''] [],
      Stmt 384 DefFunction [''train_step''] [''tf''] [''tf'', ''model'', ''optimizer''],
      Stmt 398 Assign [''EPOCHS''] [] [],
      Stmt 400 TrainingLoop [''epoch'', ''start'', ''hidden'', ''batch_n'', ''inp'', ''target'', ''loss'', ''template''] [''EPOCHS'', ''time'', ''model'', ''dataset'', ''train_step'', ''checkpoint_prefix''] [],
      Stmt 421 SaveWeights [] [''model'', ''checkpoint_prefix'', ''epoch''] []]"

text \<open>
  Running the statements in order, with the names bound so far and the body of every
  function defined so far: a statement can run when every name it reads is bound, and,
  for a name that is a defined function, every name its body reads is bound too.
\<close>

fun all_bound :: "string list \<Rightarrow> string list \<Rightarrow> bool" where
  "all_bound bound [] = True"
| "all_bound bound (v # vs) = (List.member bound v \<and> all_bound bound vs)"

fun bodies_bound :: "string list \<Rightarrow> (string \<times> string list) list \<Rightarrow> string list \<Rightarrow> bool" where
  "bodies_bound bound funs [] = True"
| "bodies_bound bound funs (v # vs) =
     ((case map_of funs v of None \<Rightarrow> True | Some body \<Rightarrow> all_bound bound body)
      \<and> bodies_bound bound funs vs)"

fun runs :: "string list \<Rightarrow> (string \<times> string list) list \<Rightarrow> stmt list \<Rightarrow> bool" where
  "runs bound funs [] = True"
| "runs bound funs (s # ss) =
     (all_bound bound (reads s) \<and> bodies_bound bound funs (reads s) \<and>
      runs (binds s @ bound)
           (if act s = DefFunction then map (\<lambda>f. (f, body_reads s)) (binds s) @ funs
            else filter (\<lambda>(f, _). \<not> List.member (binds s) f) funs)
           ss)"

text \<open>The calls that make up the phases of the script.\<close>

fun is_phase :: "step \<Rightarrow> bool" where
  "is_phase GetFile = True"
| "is_phase ReadText = True"
| "is_phase Vocab = True"
| "is_phase Vectorize = True"
| "is_phase FromTensorSlices = True"
| "is_phase Batch = True"
| "is_phase MapSplit = True"
| "is_phase ShuffleBatch = True"
| "is_phase BuildModel = True"
| "is_phase Compile = True"
| "is_phase Fit = True"
| "is_phase LoadWeights = True"
| "is_phase GenerateText = True"
| "is_phase TrainingLoop = True"
| "is_phase SaveWeights = True"
| "is_phase _ = False"

definition phases :: "stmt list \<Rightarrow> step list" where
  "phases ss = filter is_phase (map act ss)"

fun increasing :: "nat list \<Rightarrow> bool" where
  "increasing [] = True"
| "increasing [x] = True"
| "increasing (x # y # ys) = (x < y \<and> increasing (y # ys))"

section \<open>Running a script\<close>



text \<open>Inputs used to run the definitions: the text \<open>Hello\<close> as code points, a
  weight initializer that gives \<open>1\<close> everywhere, and an input matrix of one row.\<close>

definition hello :: "nat list" where
  "hello = [72, 101, 108, 108, 111]"

definition ones_initializer :: "unit \<Rightarrow> nat list \<Rightarrow> (nat list \<Rightarrow> real) \<times> unit" where
  "ones_initializer g shape = (\<lambda>_. 1, g)"

definition demo_input :: matrix where
  "demo_input = \<lparr>nrows = 1, ncols = 2, entry = (\<lambda>i j. 1)\<rparr>"

section \<open>Properties of the slices and of indexing\<close>

lemma split_input_target_eq: "split_input_target chunk = (butlast chunk, tl chunk)"
  by (simp add: split_input_target_def slice_to_minus1_def slice_from_1_def
      butlast_conv_take drop_Suc)

lemma int_length_pred: "chunk \<noteq> [] \<Longrightarrow> int (length chunk - Suc 0) = int (length chunk) - 1"
  by (cases chunk) simp_all

lemma getitem_last: "xs \<noteq> [] \<Longrightarrow> getitem xs (- 1) = Inr (last xs)"
  by (cases xs rule: rev_cases) (simp_all add: getitem_def Let_def)

lemma getitem_in_range: "0 \<le> i \<Longrightarrow> i < int (length xs) \<Longrightarrow> getitem xs i = Inr (xs ! nat i)"
  by (simp add: getitem_def Let_def)

text \<open>
  Claim C1.  For a non-empty chunk, \<open>split_input_target\<close> returns the chunk without its
  last element and the chunk without its first element; both have \<open>len(chunk) - 1\<close>
  elements, and at every position \<open>i\<close> of them the input holds \<open>chunk[i]\<close> and the
  target holds \<open>chunk[i + 1]\<close>: the target is the input shifted by one.
\<close>

theorem split_input_target_offset:
  assumes "chunk \<noteq> []"
  shows "split_input_target chunk = (butlast chunk, tl chunk) \<and>
         int (length (fst (split_input_target chunk))) = int (length chunk) - 1 \<and>
         int (length (snd (split_input_target chunk))) = int (length chunk) - 1 \<and>
         (\<forall>i. 0 \<le> i \<and> i < int (length chunk) - 1 \<longrightarrow>
            getitem (fst (split_input_target chunk)) i = getitem chunk i \<and>
            getitem (snd (split_input_target chunk)) i = getitem chunk (i + 1))"
proof -
  have shape: "int (length (butlast chunk)) = int (length chunk) - 1"
    "int (length (tl chunk)) = int (length chunk) - 1"
    using assms by (simp_all add: int_length_pred)
  have pos: "getitem (butlast chunk) i = getitem chunk i \<and>
             getitem (tl chunk) i = getitem chunk (i + 1)"
    if "0 \<le> i" "i < int (length chunk) - 1" for i
  proof -
    from that have n: "nat i < length chunk - 1" by linarith
    then have "butlast chunk ! nat i = chunk ! nat i" "tl chunk ! nat i = chunk ! Suc (nat i)"
      by (simp_all add: nth_butlast nth_tl)
    moreover have "nat (i + 1) = Suc (nat i)" using that(1) by simp
    ultimately show ?thesis
      using that shape by (simp add: getitem_def Let_def)
  qed
  show ?thesis
    unfolding split_input_target_eq fst_conv snd_conv using shape pos by blast
qed

theorem split_input_target_offset_witness:
  "hello \<noteq> [] \<and> split_input_target hello = ([72, 101, 108, 108], [101, 108, 108, 111]) \<and>
   getitem (snd (split_input_target hello)) 3 = getitem hello 4"
proof -
  have ne: "hello \<noteq> []" by (simp add: hello_def)
  note t = split_input_target_offset [OF ne]
  from t have eq: "split_input_target hello = (butlast hello, tl hello)" by blast
  from t have "0 \<le> (3::int) \<and> 3 < int (length hello) - 1 \<longrightarrow>
      getitem (snd (split_input_target hello)) 3 = getitem hello (3 + 1)" by blast
  then have "getitem (snd (split_input_target hello)) 3 = getitem hello 4"
    by (simp add: hello_def)
  with ne eq show ?thesis by (simp add: hello_def)
qed

section \<open>Properties of the vocabulary\<close>

lemma distinct_vocab: "distinct (vocab text)"
  by (simp add: vocab_def)

lemma set_vocab: "set (vocab text) = set text"
  by (simp add: vocab_def)

lemma vocab_hello: "vocab hello = [72, 101, 108, 111]"
  by (simp add: vocab_def hello_def)

text \<open>
  Claim C2.  The vocabulary size is the number of distinct characters of the text.
\<close>

theorem vocab_size_distinct_characters:
  "vocab_size text = int (card (set text)) \<and> length (vocab text) = card (set text)"
  by (simp add: vocab_size_def vocab_def)

section \<open>Properties of the lookup tables\<close>

lemma fold_upd_other:
  assumes f: "\<And>i u d. f (i, u) d = d(u \<mapsto> i)"
  shows "k \<notin> snd ` set ps \<Longrightarrow> fold f ps d0 k = d0 k"
  by (induction ps arbitrary: d0) (auto simp: f)

lemma fold_upd_distinct:
  assumes f: "\<And>i u d. f (i, u) d = d(u \<mapsto> i)"
  shows "distinct (map snd ps) \<Longrightarrow> (i, u) \<in> set ps \<Longrightarrow> fold f ps d0 u = Some i"
proof (induction ps arbitrary: d0)
  case Nil
  then show ?case by simp
next
  case (Cons p ps)
  show ?case
  proof (cases "(i, u) = p")
    case True
    with Cons.prems have "u \<notin> snd ` set ps" by force
    then show ?thesis using True [symmetric] by (simp add: fold_upd_other [OF f] f)
  next
    case False
    with Cons show ?thesis by auto
  qed
qed

lemma dom_fold_upd:
  assumes f: "\<And>i u d. f (i, u) d = d(u \<mapsto> i)"
  shows "dom (fold f ps d0) = dom d0 \<union> snd ` set ps"
  by (induction ps arbitrary: d0) (auto simp: f)

lemma snd_py_enumerate: "map snd (py_enumerate xs) = xs"
  by (simp add: py_enumerate_def)

lemma py_enumerate_mem: "j < length xs \<Longrightarrow> (int j, xs ! j) \<in> set (py_enumerate xs)"
  by (force simp: py_enumerate_def set_zip)

lemma char2idx_nth:
  "j < length (vocab text) \<Longrightarrow> char2idx text (vocab text ! j) = Some (int j)"
  unfolding char2idx_def
  by (rule fold_upd_distinct) (simp_all add: snd_py_enumerate distinct_vocab py_enumerate_mem)

lemma dom_char2idx: "dom (char2idx text) = set text"
proof -
  have "snd ` set (py_enumerate (vocab text)) = set (map snd (py_enumerate (vocab text)))"
    by simp
  also have "\<dots> = set text"
    by (simp only: snd_py_enumerate set_vocab)
  finally show ?thesis
    unfolding char2idx_def by (subst dom_fold_upd) simp_all
qed

lemma char2idx_member:
  assumes "c \<in> set text"
  shows "\<exists>j < length (vocab text). vocab text ! j = c \<and> char2idx text c = Some (int j)"
proof -
  from assms have "c \<in> set (vocab text)" by (simp add: set_vocab)
  then obtain j where "j < length (vocab text)" "vocab text ! j = c"
    by (auto simp: in_set_conv_nth)
  with char2idx_nth [of j "text"] show ?thesis by auto
qed

lemma vocab_nul: "vocab [0, 97 :: nat] = [0, 97]"
  by (simp add: vocab_def)

lemma idx2char_nth:
  "j < length (vocab text) \<Longrightarrow> idx2char text ! j = np_item (vocab text ! j)"
  by (simp add: idx2char_def)

lemma length_idx2char: "length (idx2char text) = length (vocab text)"
  by (simp add: idx2char_def)




section \<open>Properties of the vectorisation\<close>

lemma lookup_each_total:
  "set cs \<subseteq> dom d \<Longrightarrow> lookup_each d cs = Inr (map (\<lambda>c. the (d c)) cs)"
  by (induction cs) (auto simp: dict_getitem_def)


lemma text_as_int_eq: "text_as_int text = Inr (map (\<lambda>c. the (char2idx text c)) text)"
  unfolding text_as_int_def by (rule lookup_each_total) (simp add: dom_char2idx)

text \<open>
  Claim C5.  The vectorisation never fails: every character of the text is a key of
  \<open>char2idx\<close>, the comprehension returns one index per character, and the index at
  position \<open>i\<close> is \<open>char2idx[text[i]]\<close>, an index of the vocabulary.
\<close>

theorem vectorization_total:
  "set text \<subseteq> dom (char2idx text) \<and>
   (\<exists>ids. text_as_int text = Inr ids \<and> length ids = length text \<and>
      (\<forall>i < length text.
          dict_getitem (char2idx text) (text ! i) = Inr (ids ! i) \<and>
          0 \<le> ids ! i \<and> ids ! i < vocab_size text))"
proof -
  let ?ids = "map (\<lambda>c. the (char2idx text c)) text"
  have pos: "dict_getitem (char2idx text) (text ! i) = Inr (?ids ! i) \<and>
             0 \<le> ?ids ! i \<and> ?ids ! i < vocab_size text" if "i < length text" for i
  proof -
    from that have "text ! i \<in> set text" by simp
    from char2idx_member [OF this] obtain j where
      "j < length (vocab text)" "vocab text ! j = text ! i"
      "char2idx text (text ! i) = Some (int j)" by blast
    with that show ?thesis
      by (simp add: dict_getitem_def vocab_size_def)
  qed
  have "set text \<subseteq> dom (char2idx text)" by (simp add: dom_char2idx)
  moreover have "length ?ids = length text" by simp
  ultimately show ?thesis using text_as_int_eq [of "text"] pos by blast
qed

theorem vectorization_total_witness:
  "text_as_int hello = Inr [0, 1, 2, 2, 3] \<and> (4::nat) < length hello \<and>
   dict_getitem (char2idx hello) (hello ! 4) = Inr 3"
proof -
  have e: "text_as_int hello = Inr [0, 1, 2, 2, 3]"
    by (simp add: text_as_int_def char2idx_def py_enumerate_def vocab_hello dict_getitem_def
        upt_rec) (simp add: hello_def dict_getitem_def)
  have l: "(4::nat) < length hello" by (simp add: hello_def)
  from vectorization_total [of hello] e l
  have "dict_getitem (char2idx hello) (hello ! 4) = Inr ([0, 1, 2, 2, 3] ! 4)" by auto
  with e l show ?thesis by simp
qed

section \<open>Properties of batching\<close>

text \<open>The fuel \<open>batch\<close> gives is enough: more fuel changes nothing.\<close>

lemma batch_fuel_enough:
  "0 < n \<Longrightarrow> length xs \<le> k \<Longrightarrow> length xs \<le> k' \<Longrightarrow>
     batch_fuel k n d xs = batch_fuel k' n d xs"
proof (induction k arbitrary: xs k')
  case 0
  then show ?case by (cases k') simp_all
next
  case (Suc k)
  show ?case
  proof (cases k')
    case 0
    with Suc.prems show ?thesis by simp
  next
    case (Suc j)
    show ?thesis
    proof (cases "xs \<noteq> [] \<and> n \<le> length xs")
      case True
      with Suc.prems Suc have "length (drop n xs) \<le> k" "length (drop n xs) \<le> j" by auto
      from Suc.IH [OF Suc.prems(1) this] True Suc show ?thesis by simp
    next
      case False
      with Suc show ?thesis by auto
    qed
  qed
qed

lemma batch_fuel_length:
  "0 < n \<Longrightarrow> length xs \<le> k \<Longrightarrow> length (batch_fuel k n True xs) = length xs div n"
proof (induction k arbitrary: xs)
  case 0 then show ?case by simp
next
  case (Suc k)
  show ?case
  proof (cases "n \<le> length xs")
    case True
    with Suc.prems have "length (drop n xs) \<le> k" by simp
    from Suc.IH[OF Suc.prems(1) this] True Suc.prems(1) show ?thesis
      by (auto simp: le_div_geq)
  next
    case False then show ?thesis by simp
  qed
qed

lemma batch_fuel_full:
  "0 < n \<Longrightarrow> c \<in> set (batch_fuel k n True xs) \<Longrightarrow> length c = n"
  by (induction k arbitrary: xs) (auto split: if_splits)

lemma batch_fuel_concat:
  "0 < n \<Longrightarrow> length xs \<le> k \<Longrightarrow> concat (batch_fuel k n True xs) = take (n * (length xs div n)) xs"
proof (induction k arbitrary: xs)
  case 0 then show ?case by simp
next
  case (Suc k)
  show ?case
  proof (cases "n \<le> length xs")
    case True
    with Suc.prems have "length (drop n xs) \<le> k" by simp
    from Suc.IH[OF Suc.prems(1) this] have
      ih: "concat (batch_fuel k n True (drop n xs)) = take (n * ((length xs - n) div n)) (drop n xs)"
      by simp
    have d: "length xs div n = Suc ((length xs - n) div n)"
      using True Suc.prems(1) by (simp add: le_div_geq)
    have "take (n * (length xs div n)) xs = take n xs @ take (n * ((length xs - n) div n)) (drop n xs)"
      unfolding d by (simp add: take_add)
    with ih True show ?thesis by auto
  next
    case False then show ?thesis by simp
  qed
qed

lemma batch_fuel_nth:
  "0 < n \<Longrightarrow> length xs \<le> k \<Longrightarrow> j < length xs div n \<Longrightarrow>
     batch_fuel k n True xs ! j = take n (drop (j * n) xs)"
proof (induction k arbitrary: xs j)
  case 0 then show ?case by simp
next
  case (Suc k)
  show ?case
  proof (cases "n \<le> length xs")
    case True
    with Suc.prems have le: "length (drop n xs) \<le> k" by simp
    show ?thesis
    proof (cases j)
      case 0 with True Suc.prems(1) show ?thesis by auto
    next
      case (Suc j')
      have d: "length xs div n = Suc ((length xs - n) div n)"
        using True Suc.prems(1) by (simp add: le_div_geq)
      with Suc Suc.prems(3) have "j' < length (drop n xs) div n" by simp
      from Suc.IH[OF Suc.prems(1) le this] True Suc Suc.prems(1) show ?thesis
        by (auto simp: add.commute)
    qed
  next
    case False
    with Suc.prems show ?thesis by (simp add: div_less)
  qed
qed

lemma dataset_eq:
  "dataset ids = Inr (map split_input_target (batch_fuel (length ids) (seq_length + 1) True ids))"
  by (simp add: dataset_def dataset_map_def sequences_def batch_def)

text \<open>
  Claim C6.  With \<open>seq_length = 100\<close>, batching the indices of the text into groups of
  \<open>101\<close> with \<open>drop_remainder=True\<close> gives \<open>len(text) // 101\<close> chunks, and the dataset
  built from them by \<open>split_input_target\<close> has one example per chunk, each with an input
  and a target of exactly \<open>100\<close> indices: example \<open>k\<close> holds the indices from
  \<open>101 * k\<close> and from \<open>101 * k + 1\<close> on.
\<close>

theorem dataset_examples_length:
  "seq_length = 100 \<and>
   (\<exists>ids exs. text_as_int text = Inr ids \<and> dataset ids = Inr exs \<and>
      length exs = length text div 101 \<and>
      (\<forall>ex \<in> set exs. length (fst ex) = seq_length \<and> length (snd ex) = seq_length) \<and>
      (\<forall>k < length exs.
          exs ! k = (take 100 (drop (101 * k) ids), take 100 (drop (101 * k + 1) ids))))"
proof -
  let ?ids = "map (\<lambda>c. the (char2idx text c)) text"
  let ?chunks = "batch_fuel (length ?ids) 101 True ?ids"
  let ?exs = "map split_input_target ?chunks"
  have d: "dataset ?ids = Inr ?exs" by (simp add: dataset_eq seq_length_def)
  have n: "length ?exs = length text div 101"
    using batch_fuel_length [of 101 ?ids "length ?ids"] by simp
  have full: "length (fst ex) = seq_length \<and> length (snd ex) = seq_length" if "ex \<in> set ?exs" for ex
  proof -
    from that obtain c where c: "c \<in> set ?chunks" "ex = split_input_target c" by auto
    from batch_fuel_full [OF _ c(1)] have "length c = 101" by simp
    with c(2) show ?thesis by (simp add: split_input_target_eq seq_length_def)
  qed
  have nth: "?exs ! k = (take 100 (drop (101 * k) ?ids), take 100 (drop (101 * k + 1) ?ids))"
    if "k < length ?exs" for k
  proof -
    from that n have k: "k < length ?ids div 101" by simp
    then have c: "?chunks ! k = take 101 (drop (k * 101) ?ids)"
      by (intro batch_fuel_nth) simp_all
    from k have "Suc k \<le> length ?ids div 101" by simp
    then have "Suc k * 101 \<le> (length ?ids div 101) * 101" by (rule mult_le_mono1)
    also have "\<dots> \<le> length ?ids" by simp
    finally have "(k + 1) * 101 \<le> length ?ids" by simp
    then have len: "101 \<le> length (drop (k * 101) ?ids)" by simp
    have b: "butlast (take 101 xs) = take 100 xs" if "101 \<le> length xs" for xs :: "int list"
      using that by (simp add: butlast_take)
    have t: "tl (take 101 xs) = take 100 (drop 1 xs)" for xs :: "int list"
      by (simp add: tl_take drop_Suc)
    from that have "?exs ! k = split_input_target (?chunks ! k)" by simp
    also have "\<dots> = (take 100 (drop (k * 101) ?ids), take 100 (drop 1 (drop (k * 101) ?ids)))"
      unfolding c split_input_target_eq using b [OF len] t by simp
    finally show ?thesis by (simp add: mult.commute add.commute)
  qed
  have "seq_length = 100" by (simp add: seq_length_def)
  with text_as_int_eq [of "text"] d n full nth show ?thesis by blast
qed

theorem dataset_examples_length_witness:
  "\<exists>ids exs. text_as_int (replicate 205 (7::nat)) = Inr ids \<and> dataset ids = Inr exs \<and>
     length exs = 2 \<and> exs ! 1 \<in> set exs \<and> length (fst (exs ! 1)) = 100 \<and> length (snd (exs ! 1)) = 100"
proof -
  from dataset_examples_length [of "replicate 205 (7::nat)"]
  obtain ids exs where h: "text_as_int (replicate 205 (7::nat)) = Inr ids" "dataset ids = Inr exs"
    "length exs = length (replicate 205 (7::nat)) div 101"
    "\<forall>ex \<in> set exs. length (fst ex) = seq_length \<and> length (snd ex) = seq_length"
    "seq_length = 100"
    by blast
  from h(3) have l: "length exs = 2" by simp
  then have m: "exs ! 1 \<in> set exs" by simp
  with h(4,5) have "length (fst (exs ! 1)) = 100 \<and> length (snd (exs ! 1)) = 100" by simp
  with h(1,2) l m show ?thesis by blast
qed

section \<open>Properties of the prediction loop\<close>

lemma tensor_getitem_last: "xs \<noteq> [] \<Longrightarrow> tensor_getitem xs (- 1) = Inr (last xs)"
  by (cases xs rule: rev_cases) (simp_all add: tensor_getitem_def)

lemma tensor_getitem_first: "tensor_getitem [x] 0 = Inr x"
  by (simp add: tensor_getitem_def)

lemma categorical_length: "length (fst (categorical d g rows)) = length rows"
  by (induction rows arbitrary: g) (simp_all add: case_prod_beta)

lemma categorical_generator:
  "snd (categorical d g rows) = fold (\<lambda>row g. snd (d g row)) rows g"
  by (induction rows arbitrary: g) (simp_all add: case_prod_beta)

lemma categorical_last:
  "rows \<noteq> [] \<Longrightarrow>
   last (fst (categorical d g rows)) =
     [fst (d (fold (\<lambda>row g. snd (d g row)) (butlast rows) g) (last rows))]"
proof (induction rows arbitrary: g)
  case Nil
  then show ?case by simp
next
  case (Cons row rows)
  obtain i g1 where d: "d g row = (i, g1)" by (cases "d g row")
  obtain rest g2 where c: "categorical d g1 rows = (rest, g2)" by (cases "categorical d g1 rows")
  show ?case
  proof (cases "rows = []")
    case True
    with d show ?thesis by simp
  next
    case False
    from categorical_length [of d g1 rows] c False have "rest \<noteq> []" by auto
    with Cons.IH [OF False, of g1] d c False show ?thesis by simp
  qed
qed

lemma generate_body_step:
  assumes ok: "framework_ok fw (length i2c)" and ne: "inp \<noteq> []"
    and rng: "\<forall>x \<in> set inp. 0 \<le> x \<and> x < int (length i2c)"
  shows "\<exists>logits m1 i g1.
           forward fw m inp = Inr (logits, m1) \<and>
           draw fw (fold (\<lambda>row g. snd (draw fw g row)) (butlast logits) g) (last logits) = (i, g1) \<and>
           0 \<le> i \<and> i < int (length i2c) \<and>
           generate_body fw i2c 1 (m, g, inp, acc) = Inr (m1, g1, [i], acc @ [i2c ! nat i])"
proof -
  from ok ne rng obtain logits m1 where f: "forward fw m inp = Inr (logits, m1)"
    and len: "length logits = length inp" and rows: "\<forall>row \<in> set logits. length row = length i2c"
    unfolding framework_ok_def by blast
  from ne rng have V: "0 < length i2c" by (cases inp) auto
  from len ne have lne: "logits \<noteq> []" by auto
  let ?g0 = "fold (\<lambda>row g. snd (draw fw g row)) (butlast logits) g"
  obtain i g1 where dr: "draw fw ?g0 (last logits) = (i, g1)" by (cases "draw fw ?g0 (last logits)")
  from lne rows V have "last logits \<noteq> []" by (metis last_in_set length_greater_0_conv)
  with ok have "0 \<le> fst (draw fw ?g0 (last logits)) \<and>
      fst (draw fw ?g0 (last logits)) < int (length (last logits))"
    unfolding framework_ok_def by blast
  with dr rows lne have i: "0 \<le> i" "i < int (length i2c)" by auto
  obtain samples g' where c: "categorical (draw fw) g logits = (samples, g')"
    by (cases "categorical (draw fw) g logits")
  from categorical_length [of "draw fw" g logits] c lne have sne: "samples \<noteq> []" by auto
  from categorical_last [OF lne, of "draw fw" g] c dr have last: "last samples = [i]" by simp
  have "fold (\<lambda>row g. snd (draw fw g row)) logits g =
        fold (\<lambda>row g. snd (draw fw g row)) (butlast logits @ [last logits]) g"
    using lne by simp
  also have "\<dots> = g1" using dr by (simp del: append_butlast_last_id)
  finally have "g' = g1" using categorical_generator [of "draw fw" g logits] c by simp
  with c have c': "categorical (draw fw) g logits = (samples, g1)" by simp
  have id: "map (map (\<lambda>x::real. x / 1)) logits = logits" by (simp add: map_idI)
  have "generate_body fw i2c 1 (m, g, inp, acc) = Inr (m1, g1, [i], acc @ [i2c ! nat i])"
    using f c' id tensor_getitem_last [OF sne] last tensor_getitem_first [of i]
      getitem_in_range [OF i]
    by (simp add: generate_body_def)
  with f dr i show ?thesis by blast
qed

lemma generate_loop_sampled:
  assumes ok: "framework_ok fw (length i2c)"
  shows "inp \<noteq> [] \<Longrightarrow> \<forall>x \<in> set inp. 0 \<le> x \<and> x < int (length i2c) \<Longrightarrow>
     \<exists>ids m' g' inp'.
       sampled fw n m g inp = (ids, m', g') \<and>
       generate_loop fw i2c 1 n (m, g, inp, acc) =
         Inr (m', g', inp', acc @ map (\<lambda>i. i2c ! nat i) ids) \<and>
       length ids = n \<and> (\<forall>i \<in> set ids. 0 \<le> i \<and> i < int (length i2c))"
proof (induction n arbitrary: m g inp acc)
  case 0
  then show ?case by simp
next
  case (Suc n)
  from generate_body_step [OF ok Suc.prems, of m g acc]
  obtain logits m1 i g1 where s:
    "forward fw m inp = Inr (logits, m1)"
    "draw fw (fold (\<lambda>row g. snd (draw fw g row)) (butlast logits) g) (last logits) = (i, g1)"
    "0 \<le> i" "i < int (length i2c)"
    "generate_body fw i2c 1 (m, g, inp, acc) = Inr (m1, g1, [i], acc @ [i2c ! nat i])" by blast
  have "[i] \<noteq> []" "\<forall>x \<in> set [i]. 0 \<le> x \<and> x < int (length i2c)" using s(3,4) by simp_all
  from Suc.IH [OF this, of m1 g1 "acc @ [i2c ! nat i]"]
  obtain ids m' g' inp' where r:
    "sampled fw n m1 g1 [i] = (ids, m', g')"
    "generate_loop fw i2c 1 n (m1, g1, [i], acc @ [i2c ! nat i]) =
       Inr (m', g', inp', (acc @ [i2c ! nat i]) @ map (\<lambda>i. i2c ! nat i) ids)"
    "length ids = n" "\<forall>i \<in> set ids. 0 \<le> i \<and> i < int (length i2c)" by blast
  have id: "map (map (\<lambda>x::real. x / 1)) logits = logits" by (simp add: map_idI)
  have a: "sampled fw (Suc n) m g inp = (i # ids, m', g')"
    using s(1,2) r(1) id by simp
  have b: "generate_loop fw i2c 1 (Suc n) (m, g, inp, acc) =
      Inr (m', g', inp', acc @ map (\<lambda>i. i2c ! nat i) (i # ids))"
    using s(5) r(2) by simp
  from a b r(3,4) s(3,4) show ?case
    by (intro exI [of _ "i # ids"] exI [of _ m'] exI [of _ g'] exI [of _ inp']) simp
qed

lemma framework_ok_logging:
  assumes "framework_ok fw V"
  shows "framework_ok (logging fw) V"
  unfolding framework_ok_def
proof (intro conjI allI impI)
  fix ms :: "'a \<times> int list list" and xs
  assume h: "xs \<noteq> [] \<and> (\<forall>x \<in> set xs. 0 \<le> x \<and> x < int V)"
  obtain m seen where ms: "ms = (m, seen)" by (cases ms)
  from assms h obtain rows m1 where "forward fw m xs = Inr (rows, m1)"
    "length rows = length xs" "\<forall>row \<in> set rows. length row = V"
    unfolding framework_ok_def by blast
  then show "\<exists>rows m1. forward (logging fw) ms xs = Inr (rows, m1) \<and> length rows = length xs \<and>
      (\<forall>row \<in> set rows. length row = V)"
    by (simp add: logging_def ms)
next
  fix ms :: "'a \<times> int list list" and rows m1
  assume h: "forward (logging fw) ms [] = Inr (rows, m1)"
  obtain m seen where ms: "ms = (m, seen)" by (cases ms)
  from h obtain m2 where "forward fw m [] = Inr (rows, m2)"
    by (auto simp: logging_def ms split: sum.splits)
  with assms show "rows = []" unfolding framework_ok_def by blast
next
  fix g and row :: "real list"
  assume "row \<noteq> []"
  with assms show "0 \<le> fst (draw (logging fw) g row)" "fst (draw (logging fw) g row) < int (length row)"
    unfolding framework_ok_def by (simp_all add: logging_def)
qed

lemma sampled_logging_seen:
  "sampled (logging fw) n (m, seen) g inp = (ids, (m', seen'), g') \<Longrightarrow> length ids = n \<Longrightarrow>
     seen' = seen @ butlast (inp # map (\<lambda>i. [i]) ids)"
proof (induction n arbitrary: m seen g inp ids)
  case 0
  then show ?case by simp
next
  case (Suc n)
  show ?case
  proof (cases "forward fw m inp")
    case (Inl e)
    with Suc.prems show ?thesis by (simp add: logging_def)
  next
    case (Inr r)
    obtain logits m1 where r: "r = (logits, m1)" by (cases r)
    let ?sc = "map (map (\<lambda>x::real. x / 1.0)) logits"
    let ?g0 = "fold (\<lambda>row g. snd (draw fw g row)) (butlast ?sc) g"
    obtain i g1 where dr: "draw fw ?g0 (last ?sc) = (i, g1)" by (cases "draw fw ?g0 (last ?sc)")
    obtain rest m2 g2 where rec:
      "sampled (logging fw) n (m1, seen @ [inp]) g1 [i] = (rest, m2, g2)"
      by (cases "sampled (logging fw) n (m1, seen @ [inp]) g1 [i]") auto
    have f: "forward (logging fw) (m, seen) inp = Inr (logits, (m1, seen @ [inp]))"
      using Inr r by (simp add: logging_def)
    have d: "draw (logging fw) = draw fw" by (simp add: logging_def)
    from Suc.prems(1) f dr rec have e: "ids = i # rest" "m2 = (m', seen')" "g2 = g'"
      by (simp_all add: d)
    with Suc.prems(2) have "length rest = n" by simp
    from Suc.IH [OF rec [unfolded e(2) e(3)] this]
    show ?thesis using e(1) by simp
  qed
qed

lemma framework_ok_demo: "0 < V \<Longrightarrow> framework_ok (demo_framework V) V"
  by (simp add: framework_ok_def demo_framework_def)

lemma start_indices:
  assumes "set start_string \<subseteq> set text"
  shows "lookup_each (char2idx text) start_string = Inr (map (\<lambda>c. the (char2idx text c)) start_string)"
    and "\<forall>x \<in> set (map (\<lambda>c. the (char2idx text c)) start_string). 0 \<le> x \<and> x < int (length (idx2char text))"
proof -
  show "lookup_each (char2idx text) start_string = Inr (map (\<lambda>c. the (char2idx text c)) start_string)"
    using assms by (intro lookup_each_total) (simp add: dom_char2idx)
  show "\<forall>x \<in> set (map (\<lambda>c. the (char2idx text c)) start_string). 0 \<le> x \<and> x < int (length (idx2char text))"
  proof
    fix x assume "x \<in> set (map (\<lambda>c. the (char2idx text c)) start_string)"
    then obtain c where c: "c \<in> set text" "x = the (char2idx text c)" using assms by auto
    from char2idx_member [OF c(1)] c(2) show "0 \<le> x \<and> x < int (length (idx2char text))"
      by (auto simp: length_idx2char)
  qed
qed

lemma generated_characters:
  assumes "0 \<notin> set text" and "\<forall>i \<in> set ids. 0 \<le> i \<and> i < int (length (vocab text))"
  shows "concat (map (\<lambda>i. idx2char text ! nat i) ids) = map (\<lambda>i. vocab text ! nat i) ids"
    and "set (map (\<lambda>i. vocab text ! nat i) ids) \<subseteq> set (vocab text)"
proof -
  have one: "idx2char text ! nat i = [vocab text ! nat i]" if "i \<in> set ids" for i
  proof -
    from that assms(2) have n: "nat i < length (vocab text)" by auto
    then have "vocab text ! nat i \<in> set text" using set_vocab [of "text"] nth_mem by blast
    with assms(1) have "vocab text ! nat i \<noteq> 0" by metis
    with n show ?thesis by (simp add: idx2char_nth np_item_def)
  qed
  then have "map (\<lambda>i. idx2char text ! nat i) ids = map (\<lambda>i. [vocab text ! nat i]) ids" by simp
  then have "concat (map (\<lambda>i. idx2char text ! nat i) ids) =
      concat (map (\<lambda>i. [vocab text ! nat i]) ids)" by (rule arg_cong)
  also have "\<dots> = map (\<lambda>i. vocab text ! nat i) ids" by (induction ids) simp_all
  finally show "concat (map (\<lambda>i. idx2char text ! nat i) ids) = map (\<lambda>i. vocab text ! nat i) ids" .
  show "set (map (\<lambda>i. vocab text ! nat i) ids) \<subseteq> set (vocab text)"
    using assms(2) by auto
qed

lemma generate_text_sampled:
  assumes "framework_ok fw (length (vocab text))"
    and "start_string \<noteq> []" and "set start_string \<subseteq> set text"
  shows "\<exists>input_eval ids m' g'.
           lookup_each (char2idx text) start_string = Inr input_eval \<and>
           sampled fw 1000 (reset_states fw m) g input_eval = (ids, m', g') \<and>
           length ids = 1000 \<and> (\<forall>i \<in> set ids. 0 \<le> i \<and> i < vocab_size text) \<and>
           generate_text fw text m g start_string =
             Inr (start_string @ concat (map (\<lambda>i. idx2char text ! nat i) ids), m', g')"
proof -
  let ?inp = "map (\<lambda>c. the (char2idx text c)) start_string"
  note si = start_indices [OF assms(3)]
  have ok: "framework_ok fw (length (idx2char text))" using assms(1) by (simp add: length_idx2char)
  have ne: "?inp \<noteq> []" using assms(2) by simp
  from generate_loop_sampled [OF ok ne si(2), of 1000 "reset_states fw m" g "[]"]
  obtain ids m' g' inp' where r:
    "sampled fw 1000 (reset_states fw m) g ?inp = (ids, m', g')"
    "generate_loop fw (idx2char text) 1 1000 (reset_states fw m, g, ?inp, []) =
       Inr (m', g', inp', [] @ map (\<lambda>i. idx2char text ! nat i) ids)"
    "length ids = 1000" "\<forall>i \<in> set ids. 0 \<le> i \<and> i < int (length (idx2char text))" by blast
  have "generate_text fw text m g start_string =
      Inr (start_string @ concat (map (\<lambda>i. idx2char text ! nat i) ids), m', g')"
    using si(1) r(2) by (simp add: generate_text_def)
  with si(1) r(1,3,4) show ?thesis by (auto simp: length_idx2char vocab_size_def)
qed

lemma categorical_demo:
  "categorical (\<lambda>g row. (0, Suc g)) g rows = (map (\<lambda>_. [0]) rows, g + length rows)"
  by (induction rows arbitrary: g) simp_all

lemma demo_body:
  assumes "inp \<noteq> []" and "i2c \<noteq> []"
  shows "generate_body (demo_framework V) i2c 1 (m, g, inp, acc) =
           Inr (Suc m, g + length inp, [0], acc @ [i2c ! 0])"
proof -
  have "tensor_getitem (map (\<lambda>_. [0::int]) inp) (- 1) = Inr [0]"
    using assms(1) tensor_getitem_last [of "map (\<lambda>_. [0::int]) inp"] by (simp add: last_map)
  moreover have "getitem i2c 0 = Inr (i2c ! 0)" using assms(2) by (simp add: getitem_def)
  ultimately show ?thesis
    using assms(1)
    by (simp add: generate_body_def demo_framework_def categorical_demo tensor_getitem_first
        comp_def)
qed

lemma demo_loop:
  "inp \<noteq> [] \<Longrightarrow> i2c \<noteq> [] \<Longrightarrow>
   generate_loop (demo_framework V) i2c 1 (Suc n) (m, g, inp, acc) =
     Inr (m + Suc n, g + length inp + n, [0], acc @ replicate (Suc n) (i2c ! 0))"
proof (induction n arbitrary: m g inp acc)
  case 0
  then show ?case by (simp add: demo_body)
next
  case (Suc n)
  have "generate_loop (demo_framework V) i2c 1 (Suc (Suc n)) (m, g, inp, acc) =
      generate_loop (demo_framework V) i2c 1 (Suc n) (Suc m, g + length inp, [0], acc @ [i2c ! 0])"
    using Suc.prems by (subst generate_loop.simps) (simp add: demo_body)
  also have "\<dots> = Inr (Suc m + Suc n, g + length inp + length [0::int] + n, [0],
      (acc @ [i2c ! 0]) @ replicate (Suc n) (i2c ! 0))"
    using Suc.prems(2) by (intro Suc.IH) simp_all
  finally show ?case by (simp add: replicate_app_Cons_same)
qed

lemma generate_text_empty_raises:
  assumes "framework_ok fw V"
  shows "isl (generate_text fw text m g [])"
proof -
  have body: "isl (generate_body fw i2c t (m0, g, [], acc))" for i2c t m0 acc
  proof (cases "forward fw m0 []")
    case (Inl e)
    then show ?thesis by (simp add: generate_body_def)
  next
    case (Inr r)
    obtain rows m1 where r: "r = (rows, m1)" by (cases r)
    with Inr assms have "rows = []" unfolding framework_ok_def by blast
    with Inr r show ?thesis by (simp add: generate_body_def tensor_getitem_def)
  qed
  have "isl (generate_loop fw i2c t (Suc n) (m0, g, [], acc))" for i2c t n m0 acc
  proof -
    from body [of i2c t m0 acc] obtain e where "generate_body fw i2c t (m0, g, [], acc) = Inl e"
      by (cases "generate_body fw i2c t (m0, g, [], acc)") auto
    then show ?thesis by simp
  qed
  from this [of "idx2char text" 1 999 "reset_states fw m" "[]"]
  obtain e where "generate_loop fw (idx2char text) 1 1000 (reset_states fw m, g, [], []) = Inl e"
    by (cases "generate_loop fw (idx2char text) 1 1000 (reset_states fw m, g, [], [])") auto
  then show ?thesis by (simp add: generate_text_def)
qed

text \<open>
  Claim C4, as the code has it.  Let the framework keep its contract for the vocabulary
  (\<open>framework_ok\<close>).  For every non-empty \<open>start_string\<close> whose characters all occur in
  the text, \<open>generate_text\<close> returns, and what it returns is fixed by the iteration
  \<open>sampled\<close>: \<open>1000\<close> passes, each a forward pass on the index drawn in the pass before
  (the first on the indices of \<open>start_string\<close>) and one categorical draw per row of the
  logits divided by the temperature, the draw of the last row being kept.  The result is
  \<open>start_string\<close> followed by the items of \<open>idx2char\<close> at the \<open>1000\<close> indices drawn, each an
  index of the vocabulary, and the model and the generator are left as the iteration
  leaves them.  When the text has no \<open>U+0000\<close>, these items are \<open>1000\<close> characters of
  the vocabulary, so the result has \<open>len(start_string) + 1000\<close> characters and starts
  with \<open>start_string\<close>.  Run on a model that records its inputs, the loop makes exactly
  \<open>1000\<close> forward passes, on the indices of \<open>start_string\<close> and then on each index drawn
  but the last.
\<close>

theorem generate_text_nonempty_start:
  assumes "framework_ok fw (length (vocab text))"
    and "start_string \<noteq> []" and "set start_string \<subseteq> set text"
  shows "(\<exists>input_eval ids m' g'.
           lookup_each (char2idx text) start_string = Inr input_eval \<and>
           sampled fw 1000 (reset_states fw m) g input_eval = (ids, m', g') \<and>
           length ids = 1000 \<and> (\<forall>i \<in> set ids. 0 \<le> i \<and> i < vocab_size text) \<and>
           generate_text fw text m g start_string =
             Inr (start_string @ concat (map (\<lambda>i. idx2char text ! nat i) ids), m', g') \<and>
           (0 \<notin> set text \<longrightarrow>
              generate_text fw text m g start_string =
                Inr (start_string @ map (\<lambda>i. vocab text ! nat i) ids, m', g') \<and>
              set (map (\<lambda>i. vocab text ! nat i) ids) \<subseteq> set (vocab text) \<and>
              length (start_string @ map (\<lambda>i. vocab text ! nat i) ids) =
                length start_string + 1000 \<and>
              take (length start_string) (start_string @ map (\<lambda>i. vocab text ! nat i) ids) =
                start_string)) \<and>
         (\<exists>input_eval ids m' seen g'.
           lookup_each (char2idx text) start_string = Inr input_eval \<and>
           sampled (logging fw) 1000 (reset_states fw m, []) g input_eval =
             (ids, (m', seen), g') \<and>
           generate_text (logging fw) text (m, []) g start_string =
             Inr (start_string @ concat (map (\<lambda>i. idx2char text ! nat i) ids), (m', seen), g') \<and>
           length ids = 1000 \<and>
           seen = butlast (input_eval # map (\<lambda>i. [i]) ids) \<and> length seen = 1000)"
proof -
  from generate_text_sampled [OF assms, of m g] obtain input_eval ids m' g' where r:
    "lookup_each (char2idx text) start_string = Inr input_eval"
    "sampled fw 1000 (reset_states fw m) g input_eval = (ids, m', g')"
    "length ids = 1000" "\<forall>i \<in> set ids. 0 \<le> i \<and> i < vocab_size text"
    "generate_text fw text m g start_string =
       Inr (start_string @ concat (map (\<lambda>i. idx2char text ! nat i) ids), m', g')" by blast
  have nul: "generate_text fw text m g start_string =
                Inr (start_string @ map (\<lambda>i. vocab text ! nat i) ids, m', g') \<and>
              set (map (\<lambda>i. vocab text ! nat i) ids) \<subseteq> set (vocab text) \<and>
              length (start_string @ map (\<lambda>i. vocab text ! nat i) ids) =
                length start_string + 1000 \<and>
              take (length start_string) (start_string @ map (\<lambda>i. vocab text ! nat i) ids) =
                start_string" if "0 \<notin> set text"
  proof -
    from r(4) have "\<forall>i \<in> set ids. 0 \<le> i \<and> i < int (length (vocab text))"
      by (simp add: vocab_size_def)
    from generated_characters [OF that this] r(3,5) show ?thesis by simp
  qed
  have first: "\<exists>input_eval ids m' g'.
           lookup_each (char2idx text) start_string = Inr input_eval \<and>
           sampled fw 1000 (reset_states fw m) g input_eval = (ids, m', g') \<and>
           length ids = 1000 \<and> (\<forall>i \<in> set ids. 0 \<le> i \<and> i < vocab_size text) \<and>
           generate_text fw text m g start_string =
             Inr (start_string @ concat (map (\<lambda>i. idx2char text ! nat i) ids), m', g') \<and>
           (0 \<notin> set text \<longrightarrow>
              generate_text fw text m g start_string =
                Inr (start_string @ map (\<lambda>i. vocab text ! nat i) ids, m', g') \<and>
              set (map (\<lambda>i. vocab text ! nat i) ids) \<subseteq> set (vocab text) \<and>
              length (start_string @ map (\<lambda>i. vocab text ! nat i) ids) =
                length start_string + 1000 \<and>
              take (length start_string) (start_string @ map (\<lambda>i. vocab text ! nat i) ids) =
                start_string)"
    using r nul by blast
  have rs: "reset_states (logging fw) (m, []) = (reset_states fw m, [])"
    by (simp add: logging_def)
  from generate_text_sampled [OF framework_ok_logging [OF assms(1)] assms(2,3), of "(m, [])" g]
  obtain inp2 ids2 M g2 where l:
    "lookup_each (char2idx text) start_string = Inr inp2"
    "sampled (logging fw) 1000 (reset_states fw m, []) g inp2 = (ids2, M, g2)"
    "length ids2 = 1000"
    "generate_text (logging fw) text (m, []) g start_string =
       Inr (start_string @ concat (map (\<lambda>i. idx2char text ! nat i) ids2), M, g2)"
    unfolding rs by blast
  obtain m2 seen where M: "M = (m2, seen)" by (cases M)
  from sampled_logging_seen [OF l(2) [unfolded M] l(3)]
  have seen: "seen = butlast (inp2 # map (\<lambda>i. [i]) ids2)" by simp
  have "length (butlast (inp2 # map (\<lambda>i. [i]) ids2)) = 1000"
    using l(3) by (simp only: length_butlast length_Cons length_map diff_Suc_1)
  with seen have "length seen = 1000" by simp
  with l seen M have second: "\<exists>input_eval ids m' seen g'.
           lookup_each (char2idx text) start_string = Inr input_eval \<and>
           sampled (logging fw) 1000 (reset_states fw m, []) g input_eval =
             (ids, (m', seen), g') \<and>
           generate_text (logging fw) text (m, []) g start_string =
             Inr (start_string @ concat (map (\<lambda>i. idx2char text ! nat i) ids), (m', seen), g') \<and>
           length ids = 1000 \<and>
           seen = butlast (input_eval # map (\<lambda>i. [i]) ids) \<and> length seen = 1000"
    by blast
  from first second show ?thesis by blast
qed

theorem generate_text_nonempty_start_witness:
  "framework_ok (demo_framework 4) (length (vocab hello)) \<and> [72, 108] \<noteq> ([]::nat list) \<and>
   set [72, 108] \<subseteq> set hello \<and> 0 \<notin> set hello \<and>
   (\<exists>ids m' g'.
      sampled (demo_framework 4) 1000 0 0 [0, 2] = (ids, m', g') \<and>
      generate_text (demo_framework 4) hello 0 0 [72, 108] =
        Inr ([72, 108] @ map (\<lambda>i. vocab hello ! nat i) ids, m', g') \<and>
      length ids = 1000)"
proof -
  have "length (vocab hello) = 4" by (simp add: vocab_hello)
  then have a: "framework_ok (demo_framework 4) (length (vocab hello))"
    by (simp only: framework_ok_demo zero_less_numeral)
  have b: "[72, 108] \<noteq> ([]::nat list)" by simp
  have c: "set [72, 108] \<subseteq> set hello" by (simp add: hello_def)
  have d: "0 \<notin> set hello" by (simp add: hello_def)
  have e: "lookup_each (char2idx hello) [72, 108] = Inr [0, 2]"
    using char2idx_nth [of 0 hello] char2idx_nth [of 2 hello]
    by (simp add: vocab_hello dict_getitem_def)
  have r: "reset_states (demo_framework 4) 0 = 0" by (simp add: demo_framework_def)
  from generate_text_nonempty_start [OF a b c, of 0 0]
  obtain input_eval ids m' g' where h:
    "lookup_each (char2idx hello) [72, 108] = Inr input_eval"
    "sampled (demo_framework 4) 1000 (reset_states (demo_framework 4) 0) 0 input_eval =
       (ids, m', g')"
    "length ids = 1000"
    "0 \<notin> set hello \<longrightarrow>
       generate_text (demo_framework 4) hello 0 0 [72, 108] =
         Inr ([72, 108] @ map (\<lambda>i. vocab hello ! nat i) ids, m', g') \<and>
       set (map (\<lambda>i. vocab hello ! nat i) ids) \<subseteq> set (vocab hello) \<and>
       length ([72, 108] @ map (\<lambda>i. vocab hello ! nat i) ids) = length [72, 108 :: nat] + 1000 \<and>
       take (length [72, 108 :: nat]) ([72, 108] @ map (\<lambda>i. vocab hello ! nat i) ids) = [72, 108]"
    by blast
  from h(1) e have i: "input_eval = [0, 2]" by (simp only: sum.inject)
  from h(4) d have t: "generate_text (demo_framework 4) hello 0 0 [72, 108] =
         Inr ([72, 108] @ map (\<lambda>i. vocab hello ! nat i) ids, m', g')" by (rule mp [THEN conjunct1])
  have "\<exists>ids m' g'.
      sampled (demo_framework 4) 1000 0 0 [0, 2] = (ids, m', g') \<and>
      generate_text (demo_framework 4) hello 0 0 [72, 108] =
        Inr ([72, 108] @ map (\<lambda>i. vocab hello ! nat i) ids, m', g') \<and>
      length ids = 1000"
    using h(2) [unfolded r i] t h(3) by (intro exI conjI)
  then show ?thesis by (intro conjI a b c d)
qed


text \<open>
  Claim C4 as stated fails in two ways.  With a text that holds \<open>U+0000\<close>, the item of
  \<open>idx2char\<close> at index \<open>0\<close> is the empty string: when that index is drawn every time, the
  result is \<open>start_string\<close> alone, not \<open>1000\<close> characters longer.  And the empty
  \<open>start_string\<close>, whose characters are all in the vocabulary, makes the first pass of
  the loop raise, in the forward pass or at the read of the last sample.
\<close>

theorem generate_text_fails:
  "framework_ok (demo_framework 2) (length (vocab [0, 97 :: nat])) \<and>
   [97] \<noteq> ([]::nat list) \<and> set [97] \<subseteq> set [0, 97 :: nat] \<and>
   generate_text (demo_framework 2) [0, 97] 0 0 [97] = Inr ([97], 1000, 1000) \<and>
   framework_ok (demo_framework 4) (length (vocab hello)) \<and>
   set [] \<subseteq> set hello \<and>
   isl (generate_text (demo_framework 4) hello 0 0 [])"
proof -
  have "length (vocab [0, 97 :: nat]) = 2" by (simp add: vocab_nul)
  then have a: "framework_ok (demo_framework 2) (length (vocab [0, 97 :: nat]))"
    by (simp only: framework_ok_demo zero_less_numeral)
  have "length (vocab hello) = 4" by (simp add: vocab_hello)
  then have b: "framework_ok (demo_framework 4) (length (vocab hello))"
    by (simp only: framework_ok_demo zero_less_numeral)
  have e: "lookup_each (char2idx [0, 97 :: nat]) [97] = Inr [1]"
    using char2idx_nth [of 1 "[0, 97 :: nat]"] by (simp add: vocab_nul dict_getitem_def)
  have i: "idx2char [0, 97] = [[], [97]]" by (simp add: idx2char_def vocab_nul np_item_def)
  have "generate_loop (demo_framework 2) [[], [97]] 1 (Suc 999) (0, 0, [1], []) =
      Inr (0 + Suc 999, 0 + length [1::int] + 999, [0], [] @ replicate (Suc 999) ([[], [97]] ! 0))"
    by (rule demo_loop) simp_all
  then have l: "generate_loop (demo_framework 2) [[], [97]] 1 1000 (0, 0, [1], []) =
      Inr (1000, 1000, [0], replicate 1000 [])"
    by simp
  have c: "concat (replicate n []) = ([]::nat list)" for n by (induction n) simp_all
  have r: "reset_states (demo_framework 2) 0 = 0" by (simp add: demo_framework_def)
  have "generate_text (demo_framework 2) [0, 97] 0 0 [97] =
      (case generate_loop (demo_framework 2) (idx2char [0, 97]) 1 1000
              (reset_states (demo_framework 2) 0, 0, [1], []) of
         Inl x \<Rightarrow> Inl x
       | Inr (m1, g1, input_eval, text_generated) \<Rightarrow> Inr ([97] @ concat text_generated, m1, g1))"
    unfolding generate_text_def e by simp
  also have "\<dots> = Inr ([97], 1000, 1000)"
    unfolding i r l by (simp add: c)
  finally have n: "generate_text (demo_framework 2) [0, 97] 0 0 [97] = Inr ([97], 1000, 1000)" .
  have s: "set [] \<subseteq> set hello" "[97] \<noteq> ([]::nat list)" "set [97] \<subseteq> set [0, 97 :: nat]"
    by simp_all
  note z = generate_text_empty_raises [OF b, of hello 0 0]
  show ?thesis by (intro conjI a s n b z)
qed

section \<open>Properties of failures\<close>







section \<open>Properties of the checkpoints\<close>








lemma custom_training_no_epoch: "custom_training 0 te (st\<lparr>epoch_var := None\<rparr>) = Inl NameError"
  by (simp add: custom_training_def py_range_def)


section \<open>Properties of the custom layer\<close>

lemma sum_list_upt: "sum_list (map f [0..<n]) = (\<Sum>k<n. f k)"
  by (simp add: interv_sum_list_conv_sum_set_nat atLeast0LessThan)

lemma build_then_call:
  assumes "build random_normal (CustomDense u) input_shape g = Inr (layer, g')"
    and "ncols x = last input_shape"
  shows "\<exists>W B y. dense_w layer = Some W \<and> dense_b layer = Some B \<and>
          nrows W = last input_shape \<and> ncols W = u \<and> vlen B = u \<and>
          call layer x = Inr y \<and> nrows y = nrows x \<and> ncols y = u \<and>
          entry y = dense_reference x W B \<and>
          dense_units layer = u \<and> get_config layer = [''units'' \<mapsto> u]"
proof -
  from assms(1) have ne: "input_shape \<noteq> []"
    by (auto simp: build_def getitem_def)
  note gi = getitem_last [OF ne]
  obtain wv g1 where r1: "random_normal g [last input_shape, u] = (wv, g1)"
    by (cases "random_normal g [last input_shape, u]")
  obtain bv g2 where r2: "random_normal g1 [u] = (bv, g2)"
    by (cases "random_normal g1 [u]")
  let ?W = "\<lparr>nrows = last input_shape, ncols = u, entry = (\<lambda>i j. wv [i, j])\<rparr>"
  let ?B = "\<lparr>vlen = u, elem = (\<lambda>j. bv [j])\<rparr>"
  from assms(1) gi r1 r2
  have layer: "layer = \<lparr>dense_units = u, dense_w = Some ?W, dense_b = Some ?B\<rparr>"
    by (simp add: build_def CustomDense_def)
  have "dense_reference x ?W ?B = (\<lambda>i j. (\<Sum>k<ncols x. entry x i k * wv [k, j]) + bv [j])"
    by (simp add: dense_reference_def fun_eq_iff)
  then have "call layer x = Inr \<lparr>nrows = nrows x, ncols = u, entry = dense_reference x ?W ?B\<rparr>"
    using assms(2) by (simp add: layer call_def matmul_def add_broadcast_def sum_list_upt)
  then show ?thesis by (simp add: layer get_config_def)
qed


lemma build_total:
  "input_shape \<noteq> [] \<Longrightarrow> \<exists>layer g'. build random_normal (CustomDense u) input_shape g = Inr (layer, g')"
  by (simp add: build_def getitem_last split: prod.splits)

lemma not_built: "call (CustomDense u) x = Inl AttributeError"
  by (simp add: call_def CustomDense_def)

text \<open>
  Claim C9.  The first call of a new \<open>CustomDense(units)\<close> on an input matrix \<open>x\<close> builds
  \<open>w\<close> of shape \<open>(input_dim, units)\<close> and \<open>b\<close> of shape \<open>(units,)\<close> and returns
  \<open>matmul(x, w) + b\<close>, which is the reference computation of a dense layer at every
  entry; \<open>units\<close> stays the argument of the constructor, and \<open>get_config\<close> returns
  \<open>{'units': units}\<close>.  The same holds for a layer built from any input shape and then
  called on a matrix with \<open>input_dim\<close> columns; on any other matrix \<open>matmul\<close> raises.
\<close>

theorem custom_dense_call:
  "(\<exists>y layer g' W B.
      first_call random_normal u x g = Inr (y, layer, g') \<and>
      dense_w layer = Some W \<and> dense_b layer = Some B \<and>
      nrows W = ncols x \<and> ncols W = u \<and> vlen B = u \<and>
      call layer x = Inr y \<and> nrows y = nrows x \<and> ncols y = u \<and>
      entry y = dense_reference x W B \<and>
      dense_units layer = u \<and> get_config layer = [''units'' \<mapsto> u]) \<and>
   (build random_normal (CustomDense u) input_shape g = Inr (layer, g1) \<longrightarrow>
      (\<exists>W B. dense_w layer = Some W \<and> dense_b layer = Some B \<and>
         nrows W = last input_shape \<and> ncols W = u \<and> vlen B = u \<and>
         dense_units layer = u \<and> get_config layer = [''units'' \<mapsto> u] \<and>
         (if ncols x = last input_shape
          then \<exists>y. call layer x = Inr y \<and> nrows y = nrows x \<and> ncols y = u \<and>
                 entry y = dense_reference x W B
          else call layer x = Inl InvalidArgumentError)))"
proof -
  have first: "\<exists>y layer g' W B.
      first_call random_normal u x g = Inr (y, layer, g') \<and>
      dense_w layer = Some W \<and> dense_b layer = Some B \<and>
      nrows W = ncols x \<and> ncols W = u \<and> vlen B = u \<and>
      call layer x = Inr y \<and> nrows y = nrows x \<and> ncols y = u \<and>
      entry y = dense_reference x W B \<and>
      dense_units layer = u \<and> get_config layer = [''units'' \<mapsto> u]"
  proof -
    from build_total [of "[nrows x, ncols x]" random_normal u g] obtain layer g' where
      b: "build random_normal (CustomDense u) [nrows x, ncols x] g = Inr (layer, g')" by auto
    from build_then_call [OF b, of x] obtain W B y where r:
      "dense_w layer = Some W" "dense_b layer = Some B" "nrows W = ncols x" "ncols W = u"
      "vlen B = u" "call layer x = Inr y" "nrows y = nrows x" "ncols y = u"
      "entry y = dense_reference x W B" "dense_units layer = u"
      "get_config layer = [''units'' \<mapsto> u]" by auto
    have "first_call random_normal u x g = Inr (y, layer, g')"
      using b r(6) by (simp add: first_call_def)
    with r show ?thesis by blast
  qed
  have second: "\<exists>W B. dense_w layer = Some W \<and> dense_b layer = Some B \<and>
         nrows W = last input_shape \<and> ncols W = u \<and> vlen B = u \<and>
         dense_units layer = u \<and> get_config layer = [''units'' \<mapsto> u] \<and>
         (if ncols x = last input_shape
          then \<exists>y. call layer x = Inr y \<and> nrows y = nrows x \<and> ncols y = u \<and>
                 entry y = dense_reference x W B
          else call layer x = Inl InvalidArgumentError)"
    if b: "build random_normal (CustomDense u) input_shape g = Inr (layer, g1)"
  proof (cases "ncols x = last input_shape")
    case True
    from build_then_call [OF b True] True show ?thesis by auto
  next
    case False
    let ?x = "x\<lparr>ncols := last input_shape\<rparr>"
    have "ncols ?x = last input_shape" by simp
    from build_then_call [OF b this] obtain W B where r:
      "dense_w layer = Some W" "dense_b layer = Some B" "nrows W = last input_shape"
      "ncols W = u" "vlen B = u" "dense_units layer = u"
      "get_config layer = [''units'' \<mapsto> u]" by auto
    have "call layer x = Inl InvalidArgumentError"
      using False r(1,3) by (simp add: call_def matmul_def)
    with r False show ?thesis by simp
  qed
  from first second show ?thesis by blast
qed

theorem custom_dense_call_witness:
  "\<exists>layer y. build ones_initializer (CustomDense 2) [5, 2] () = Inr (layer, ()) \<and>
      ncols demo_input = last [5, 2] \<and> call layer demo_input = Inr y \<and>
      nrows y = 1 \<and> ncols y = 2 \<and> entry y 0 1 = 3 \<and> get_config layer ''units'' = Some 2"
proof -
  let ?W = "\<lparr>nrows = 2, ncols = 2, entry = (\<lambda>i j. 1)\<rparr>"
  let ?B = "\<lparr>vlen = 2, elem = (\<lambda>j. 1)\<rparr>"
  let ?L = "\<lparr>dense_units = 2, dense_w = Some ?W, dense_b = Some ?B\<rparr>"
  have b: "build ones_initializer (CustomDense 2) [5, 2] () = Inr (?L, ())"
    by (simp add: build_def getitem_def ones_initializer_def CustomDense_def)
  have c: "ncols demo_input = last [5, 2]" by (simp add: demo_input_def)
  from custom_dense_call [of ones_initializer 2 demo_input "()" "[5, 2]" ?L "()"] b c
  obtain y where y: "call ?L demo_input = Inr y"
    "nrows y = nrows demo_input" "ncols y = 2" "entry y = dense_reference demo_input ?W ?B"
    "get_config ?L = [''units'' \<mapsto> 2]"
    by auto
  have "dense_reference demo_input ?W ?B 0 1 = 3"
    by (simp add: dense_reference_def demo_input_def lessThan_Suc numeral_2_eq_2)
  with y b c show ?thesis by (intro exI [of _ ?L] exI [of _ y]) (simp add: demo_input_def)
qed

section \<open>Properties of the order of the script\<close>

lemma runs_needs_imports: "\<not> runs [] [] (tl script)"
  unfolding script_def by simp

text \<open>
  Claim C10.  The statements of the script stand in the order of their lines; when they
  run in that order, every statement reads only names bound by statements before it
  (and a called function reads only such names); and the framework calls that make up
  the phases come in the order download, read, vocabulary, vectorisation, dataset
  construction, model building, compile, fit, loading the weights, text generation,
  followed by the custom training.
\<close>

theorem script_linear_order:
  "increasing (map line script) \<and> runs [] [] script \<and>
   phases script =
     [GetFile, ReadText, Vocab, Vectorize, FromTensorSlices, Batch, MapSplit, ShuffleBatch,
      BuildModel, Compile, Fit, BuildModel, LoadWeights, GenerateText, BuildModel,
      TrainingLoop, SaveWeights]"
proof -
  have "increasing (map line script)"
    unfolding script_def by simp
  moreover have "runs [] [] script"
    unfolding script_def by code_simp
  moreover have "phases script =
     [GetFile, ReadText, Vocab, Vectorize, FromTensorSlices, Batch, MapSplit, ShuffleBatch,
      BuildModel, Compile, Fit, BuildModel, LoadWeights, GenerateText, BuildModel,
      TrainingLoop, SaveWeights]"
    unfolding script_def phases_def by simp
  ultimately show ?thesis by blast
qed

end
